theory Spec2Isabelle
  imports Main "HOL-Library.Multiset"
begin

section \<open>Panel order and visibility of \<open>src/app/page.tsx\<close>\<close>

text \<open>
  The page component \<open>Home\<close> keeps three pieces of React state: \<open>panelOrder\<close> (an
  array of panel identities), \<open>openPanels\<close> (a set of panel identities) and
  \<open>activeId\<close> (the panel being dragged, or \<open>null\<close>). Every handler is modelled as
  a function from the state before the event to the state after it; a functional
  state update \<open>setX((prev) => ...)\<close> is the application of the updater to the
  field.
\<close>

subsection \<open>Data\<close>

text \<open>\<open>type PanelType = 'map' | 'music' | 'chat'\<close>\<close>

datatype PanelType = Map | Music | Chat

text \<open>The icon components are opaque renderable references.\<close>

datatype Icon = MapIcon | MusicalNoteIcon | ChatBubbleBottomCenterIcon

text \<open>\<open>interface Panel { id; title; icon }\<close>\<close>

record Panel =
  id :: PanelType
  title :: string
  icon :: Icon

definition allPanels :: "Panel list" where
  "allPanels =
     [\<lparr>id = Map, title = ''Map'', icon = MapIcon\<rparr>,
      \<lparr>id = Music, title = ''Music'', icon = MusicalNoteIcon\<rparr>,
      \<lparr>id = Chat, title = ''Chat'', icon = ChatBubbleBottomCenterIcon\<rparr>]"

text \<open>
  A JavaScript array typed \<open>PanelType[]\<close> can hold \<open>undefined\<close> at run time
  (\<open>arrayMove\<close> below inserts it when it is handed an empty array), so an array slot is
  a \<open>PanelType option\<close>: \<open>Some p\<close> is the identity \<open>p\<close>, \<open>None\<close> is \<open>undefined\<close>.
  \<open>activeId\<close> has the type \<open>PanelType | null\<close>; there \<open>None\<close> is \<open>null\<close>.
\<close>

record State =
  panelOrder :: "PanelType option list"
  openPanels :: "PanelType set"
  activeId :: "PanelType option"

text \<open>The three \<open>useState\<close> initialisers of \<open>Home\<close>.\<close>

definition initialState :: State where
  "initialState =
     \<lparr>panelOrder = [Some Map, Some Music, Some Chat],
      openPanels = {Map, Music, Chat},
      activeId = None\<rparr>"

text \<open>
  The drag events of the drag-and-drop library, reduced to the fields the handlers
  read: \<open>event.active.id\<close> and \<open>event.over\<close> (\<open>null\<close> when the drop has no target,
  otherwise an object whose \<open>id\<close> is read).
\<close>

record DragStartEvent =
  start_active :: PanelType

record DragEndEvent =
  active :: PanelType
  over :: "PanelType option"

subsection \<open>The array built-ins and \<open>arrayMove\<close>\<close>

text \<open>
  \<open>Array.prototype.indexOf\<close>: the index of the first element strictly equal to the
  argument, \<open>-1\<close> when there is none.
\<close>

fun indexOf :: "'a list \<Rightarrow> 'a \<Rightarrow> int" where
  "indexOf [] x = - 1"
| "indexOf (y # ys) x =
     (if y = x then 0
      else (let k = indexOf ys x in if k < 0 then - 1 else k + 1))"

text \<open>
  \<open>Array.prototype.splice(start, deleteCount, ...items)\<close>. A negative \<open>start\<close> counts
  from the end and is clamped to \<open>0\<close>, a \<open>start\<close> beyond the end is clamped to the
  length; \<open>deleteCount\<close> is clamped to what is left after \<open>start\<close>. The model returns
  the removed elements (the call's value) and the array after the mutation.
\<close>

definition spliceStart :: "nat \<Rightarrow> int \<Rightarrow> nat" where
  "spliceStart len start =
     (if start < 0 then nat (max (int len + start) 0) else min (nat start) len)"

definition splice :: "'a list \<Rightarrow> int \<Rightarrow> int \<Rightarrow> 'a list \<Rightarrow> 'a list \<times> 'a list" where
  "splice arr start deleteCount items =
     (let len = length arr;
          actualStart = spliceStart len start;
          actualDeleteCount = nat (min (max deleteCount 0) (int len - int actualStart))
      in (take actualDeleteCount (drop actualStart arr),
          take actualStart arr @ items @ drop (actualStart + actualDeleteCount) arr))"

text \<open>
  \<open>arrayMove\<close> is imported from \<open>@dnd-kit/sortable\<close>; the library's function is
  \<^verbatim>\<open>
  export function arrayMove<T>(array: T[], from: number, to: number): T[] {
    const newArray = array.slice();
    newArray.splice(
      to < 0 ? newArray.length + to : to,
      0,
      newArray.splice(from, 1)[0]
    );
    return newArray;
  }
  \<close>
  JavaScript evaluates the arguments of the outer \<open>splice\<close> from left to right: the
  insertion index is computed from the length before the inner \<open>splice\<close> removes the
  element. \<open>removed[0]\<close> of an empty array is \<open>undefined\<close>.
\<close>

definition arrayMove :: "'a option list \<Rightarrow> int \<Rightarrow> int \<Rightarrow> 'a option list" where
  "arrayMove array from to =
     (let newArray = array;
          start = (if to < 0 then int (length newArray) + to else to);
          (removed, newArray1) = splice newArray from 1 [];
          item = (case removed of [] \<Rightarrow> None | x # _ \<Rightarrow> x);
          (_, newArray2) = splice newArray1 start 0 [item]
      in newArray2)"

subsection \<open>The handlers of \<open>Home\<close>\<close>

definition handleDragStart :: "DragStartEvent \<Rightarrow> State \<Rightarrow> State" where
  "handleDragStart event s = s\<lparr>activeId := Some (start_active event)\<rparr>"

definition handleDragEnd :: "DragEndEvent \<Rightarrow> State \<Rightarrow> State" where
  "handleDragEnd event s =
     (let s1 = s\<lparr>activeId := None\<rparr>
      in case over event of
           None \<Rightarrow> s1
         | Some over_id \<Rightarrow>
             if active event \<noteq> over_id then
               s1\<lparr>panelOrder :=
                    (let items = panelOrder s1;
                         oldIndex = indexOf items (Some (active event));
                         newIndex = indexOf items (Some over_id)
                     in arrayMove items oldIndex newIndex)\<rparr>
             else s1)"

definition handleDragCancel :: "State \<Rightarrow> State" where
  "handleDragCancel s = s\<lparr>activeId := None\<rparr>"

definition togglePanel :: "PanelType \<Rightarrow> State \<Rightarrow> State" where
  "togglePanel panelId s =
     s\<lparr>openPanels :=
          (let newSet = openPanels s
           in if panelId \<in> newSet then newSet - {panelId} else insert panelId newSet)\<rparr>"

definition closePanel :: "PanelType \<Rightarrow> State \<Rightarrow> State" where
  "closePanel panelId s = s\<lparr>openPanels := openPanels s - {panelId}\<rparr>"

text \<open>
  \<open>openPanels.has(id)\<close> on an array slot: the set holds identities only, so it has no
  \<open>undefined\<close>.
\<close>

definition has :: "PanelType set \<Rightarrow> PanelType option \<Rightarrow> bool" where
  "has ps x = (case x of None \<Rightarrow> False | Some p \<Rightarrow> p \<in> ps)"

text \<open>
  \<open>panelOrder.filter((id) => openPanels.has(id)).map((id) => allPanels.find((p) => p.id === id)!)\<close>.
  \<open>Array.prototype.find\<close> gives the first match or \<open>undefined\<close> (\<open>None\<close>); the
  postfix \<open>!\<close> exists only for the type checker.
\<close>

definition visiblePanels :: "State \<Rightarrow> Panel option list" where
  "visiblePanels s =
     map (\<lambda>x. find (\<lambda>p. Some (id p) = x) allPanels)
         (filter (\<lambda>x. has (openPanels s) x) (panelOrder s))"

text \<open>
  \<open>const activePanel = activeId ? allPanels.find((p) => p.id === activeId) ?? null : null\<close>
\<close>

definition activePanel :: "State \<Rightarrow> Panel option" where
  "activePanel s =
     (case activeId s of None \<Rightarrow> None
      | Some a \<Rightarrow> find (\<lambda>p. id p = a) allPanels)"

subsection \<open>The store operations in terms of the handlers\<close>

text \<open>
  The only reorder of the source is the drop of panel \<open>fromId\<close> onto panel \<open>toId\<close>.
\<close>

definition reorder :: "PanelType \<Rightarrow> PanelType \<Rightarrow> State \<Rightarrow> State" where
  "reorder fromId toId s = handleDragEnd \<lparr>active = fromId, over = Some toId\<rparr> s"

text \<open>A call of one of the two visibility handlers, and a sequence of such calls.\<close>

datatype VisibilityCall = Toggle PanelType | Close PanelType

fun call :: "VisibilityCall \<Rightarrow> State \<Rightarrow> State" where
  "call (Toggle p) s = togglePanel p s"
| "call (Close p) s = closePanel p s"

fun calls :: "VisibilityCall list \<Rightarrow> State \<Rightarrow> State" where
  "calls [] s = s"
| "calls (c # cs) s = calls cs (call c s)"

subsection \<open>The invariant of the order\<close>

text \<open>
  The order is a permutation of the identities of the registry \<open>allPanels\<close>: no
  duplicates, and exactly the registry's identities as members.
\<close>

definition isRegistryPermutation :: "PanelType option list \<Rightarrow> bool" where
  "isRegistryPermutation order \<longleftrightarrow>
     distinct order \<and> set order = set (map (\<lambda>p. Some (id p)) allPanels)"

subsection \<open>Sequences of events\<close>

text \<open>
  The five handlers are the only writers of the state. An event is a call of one of
  them; a run applies a sequence of events from left to right.
\<close>

datatype Event =
  DragStart DragStartEvent
| DragEnd DragEndEvent
| DragCancel
| TogglePanel PanelType
| ClosePanel PanelType

fun dispatch :: "Event \<Rightarrow> State \<Rightarrow> State" where
  "dispatch (DragStart event) s = handleDragStart event s"
| "dispatch (DragEnd event) s = handleDragEnd event s"
| "dispatch DragCancel s = handleDragCancel s"
| "dispatch (TogglePanel panelId) s = togglePanel panelId s"
| "dispatch (ClosePanel panelId) s = closePanel panelId s"

fun run :: "Event list \<Rightarrow> State \<Rightarrow> State" where
  "run [] s = s"
| "run (e # es) s = run es (dispatch e s)"

subsection \<open>Counting the toggles of a panel\<close>

text \<open>
  For a sequence of visibility calls and a panel \<open>p\<close>: the calls after the last
  \<open>Close p\<close> (all of them when there is none), the number of \<open>Toggle p\<close> among
  them, and whether \<open>p\<close> was open at that point, which is just after the last
  \<open>Close p\<close> (then it was closed) or at the start.
\<close>

definition sinceLastClose :: "PanelType \<Rightarrow> VisibilityCall list \<Rightarrow> VisibilityCall list" where
  "sinceLastClose p cs = rev (takeWhile (\<lambda>c. c \<noteq> Close p) (rev cs))"

definition togglesSinceLastClose :: "PanelType \<Rightarrow> VisibilityCall list \<Rightarrow> nat" where
  "togglesSinceLastClose p cs = length (filter (\<lambda>c. c = Toggle p) (sinceLastClose p cs))"

definition openAtMark :: "PanelType \<Rightarrow> VisibilityCall list \<Rightarrow> State \<Rightarrow> bool" where
  "openAtMark p cs s = (if Close p \<in> set cs then False else p \<in> openPanels s)"

section \<open>Properties\<close>

subsection \<open>The array operations\<close>

lemma indexOf_absent: "x \<notin> set xs \<Longrightarrow> indexOf xs x = - 1"
  by (induction xs) (auto simp: Let_def)

lemma indexOf_present:
  "x \<in> set xs \<Longrightarrow> indexOf xs x = int (length (takeWhile (\<lambda>y. y \<noteq> x) xs))"
  by (induction xs) (auto simp: Let_def indexOf_absent)

lemma takeWhile_lt: "x \<in> set xs \<Longrightarrow> length (takeWhile (\<lambda>y. y \<noteq> x) xs) < length xs"
  by (induction xs) auto

lemma nth_takeWhile_pos: "x \<in> set xs \<Longrightarrow> xs ! length (takeWhile (\<lambda>y. y \<noteq> x) xs) = x"
  by (induction xs) auto

lemma remove1_take_drop:
  "x \<in> set xs \<Longrightarrow>
   remove1 x xs = take (length (takeWhile (\<lambda>y. y \<noteq> x) xs)) xs
                  @ drop (Suc (length (takeWhile (\<lambda>y. y \<noteq> x) xs))) xs"
  by (induction xs) auto

text \<open>Removing the element at a valid index, and inserting at a valid index.\<close>

lemma splice_remove_one:
  "i < length xs \<Longrightarrow> splice xs (int i) 1 [] = ([xs ! i], take i xs @ drop (Suc i) xs)"
  by (simp add: splice_def spliceStart_def Let_def min_def Cons_nth_drop_Suc[symmetric])

lemma splice_insert:
  "j \<le> length xs \<Longrightarrow> splice xs (int j) 0 [v] = ([], take j xs @ v # drop j xs)"
  by (simp add: splice_def spliceStart_def Let_def)

text \<open>The start \<open>-1\<close> (the \<open>indexOf\<close> of an absent element) removes the last element.\<close>

lemma splice_remove_last:
  "xs \<noteq> [] \<Longrightarrow> splice xs (- 1) 1 [] = ([last xs], butlast xs)"
  by (cases xs rule: rev_cases) (simp_all add: splice_def spliceStart_def Let_def)

lemma mset_splice_insert: "mset (snd (splice xs st 0 [v])) = add_mset v (mset xs)"
proof -
  have "mset (take n xs @ v # drop n xs) = add_mset v (mset xs)" for n
  proof -
    have "mset (take n xs) + mset (drop n xs) = mset (take n xs @ drop n xs)"
      by (simp only: mset_append)
    also have "\<dots> = mset xs"
      by (simp only: append_take_drop_id)
    finally show ?thesis by simp
  qed
  then show ?thesis
    by (simp add: splice_def Let_def)
qed

lemma arrayMove_in_range:
  assumes "i < length xs" "j < length xs"
  shows "arrayMove xs (int i) (int j) =
           take j (take i xs @ drop (Suc i) xs) @ xs ! i # drop j (take i xs @ drop (Suc i) xs)"
proof -
  have "j \<le> length (take i xs @ drop (Suc i) xs)"
    using assms by simp
  then show ?thesis
    using assms by (simp add: arrayMove_def splice_remove_one splice_insert)
qed

lemma nth_removed:
  "i < length xs \<Longrightarrow> m < length xs - 1 \<Longrightarrow>
   (take i xs @ drop (Suc i) xs) ! m = (if m < i then xs ! m else xs ! Suc m)"
  by (simp add: nth_append min_def)

lemma nth_inserted:
  "j \<le> length r \<Longrightarrow> k \<le> length r \<Longrightarrow>
   (take j r @ v # drop j r) ! k = (if k < j then r ! k else if k = j then v else r ! (k - 1))"
  by (simp add: nth_append nth_Cons' min_def)

lemma nth_moved:
  assumes "i < length xs" "j < length xs" "k < length xs"
  shows "(take j (take i xs @ drop (Suc i) xs) @ xs ! i # drop j (take i xs @ drop (Suc i) xs)) ! k =
         (if k = j then xs ! i
          else if i \<le> k \<and> k < j then xs ! Suc k
          else if j < k \<and> k \<le> i then xs ! (k - 1)
          else xs ! k)"
proof -
  define r where "r = take i xs @ drop (Suc i) xs"
  have len: "length r = length xs - 1"
    using assms(1) by (simp add: r_def)
  have r: "r ! m = (if m < i then xs ! m else xs ! Suc m)" if "m < length xs - 1" for m
    unfolding r_def using assms(1) that by (rule nth_removed)
  have ins: "(take j r @ xs ! i # drop j r) ! k =
      (if k < j then r ! k else if k = j then xs ! i else r ! (k - 1))"
    using assms(2,3) by (intro nth_inserted) (simp_all add: len)
  consider "k < j" | "k = j" | "j < k" by arith
  then show ?thesis
  proof cases
    case 1
    then have "k < length xs - 1" using assms(2) by arith
    with 1 show ?thesis unfolding r_def[symmetric] by (simp add: ins r)
  next
    case 2
    with ins show ?thesis unfolding r_def[symmetric] by simp
  next
    case 3
    then have "k - 1 < length xs - 1" using assms(3) by arith
    with 3 show ?thesis unfolding r_def[symmetric] by (auto simp add: ins r)
  qed
qed

subsection \<open>Reordering\<close>

lemma panelOrder_reorder:
  "fromId \<noteq> toId \<Longrightarrow>
   panelOrder (reorder fromId toId s) =
     arrayMove (panelOrder s) (indexOf (panelOrder s) (Some fromId)) (indexOf (panelOrder s) (Some toId))"
  by (simp add: reorder_def handleDragEnd_def Let_def)

text \<open>
  C1. For distinct identities \<open>fromId\<close> and \<open>toId\<close> that both occur in the order,
  \<open>reorder fromId toId\<close> removes \<open>fromId\<close> (at its position \<open>i\<close>) and reinserts it at
  the position \<open>j\<close> that \<open>toId\<close> had: the new array is the old one without \<open>fromId\<close>,
  with \<open>fromId\<close> put in at index \<open>j\<close>; the length is kept; the elements between the
  two positions move by one place towards the gap, all others stay. On the order
  \<open>[map, music, chat]\<close>, \<open>reorder map chat\<close> gives \<open>[music, chat, map]\<close> (the instance that follows the theorem).
\<close>

theorem reorder_moves:
  assumes "fromId \<noteq> toId"
    and "Some fromId \<in> set (panelOrder s)"
    and "Some toId \<in> set (panelOrder s)"
  shows "let order = panelOrder s;
             i = length (takeWhile (\<lambda>x. x \<noteq> Some fromId) order);
             j = length (takeWhile (\<lambda>x. x \<noteq> Some toId) order);
             rest = remove1 (Some fromId) order;
             order' = panelOrder (reorder fromId toId s)
         in order' = take j rest @ Some fromId # drop j rest
          \<and> length order' = length order
          \<and> order' ! j = Some fromId
          \<and> (\<forall>k < length order.
                order' ! k =
                  (if k = j then Some fromId
                   else if i \<le> k \<and> k < j then order ! Suc k
                   else if j < k \<and> k \<le> i then order ! (k - 1)
                   else order ! k))"
proof -
  define order where "order = panelOrder s"
  define i where "i = length (takeWhile (\<lambda>x. x \<noteq> Some fromId) order)"
  define j where "j = length (takeWhile (\<lambda>x. x \<noteq> Some toId) order)"
  define rest where "rest = remove1 (Some fromId) order"
  define order' where "order' = panelOrder (reorder fromId toId s)"
  have mem: "Some fromId \<in> set order" "Some toId \<in> set order"
    using assms by (simp_all add: order_def)
  have i: "i < length order" and j: "j < length order"
    using mem by (simp_all add: i_def j_def takeWhile_lt)
  have at_i: "order ! i = Some fromId"
    using mem by (simp add: i_def nth_takeWhile_pos)
  have rest: "rest = take i order @ drop (Suc i) order"
    using mem by (simp add: rest_def i_def remove1_take_drop)
  have "order' = arrayMove order (int i) (int j)"
    using assms(1) mem
    by (simp add: order'_def order_def[symmetric] panelOrder_reorder indexOf_present i_def j_def)
  then have eq: "order' = take j rest @ Some fromId # drop j rest"
    using i j by (simp add: arrayMove_in_range rest at_i)
  have len: "length order' = length order"
    using i j by (simp add: eq rest)
  have nth: "order' ! k =
      (if k = j then Some fromId
       else if i \<le> k \<and> k < j then order ! Suc k
       else if j < k \<and> k \<le> i then order ! (k - 1)
       else order ! k)" if "k < length order" for k
    using nth_moved[OF i j that] by (simp add: eq rest at_i)
  have "order' ! j = Some fromId"
    using nth[OF j] by simp
  with eq len nth show ?thesis
    unfolding Let_def order_def[symmetric] i_def[symmetric] j_def[symmetric]
      rest_def[symmetric] order'_def[symmetric]
    by blast
qed

theorem reorder_moves_witness:
  "Map \<noteq> Chat
   \<and> Some Map \<in> set (panelOrder initialState)
   \<and> Some Chat \<in> set (panelOrder initialState)
   \<and> panelOrder initialState = [Some Map, Some Music, Some Chat]
   \<and> panelOrder (reorder Map Chat initialState) = [Some Music, Some Chat, Some Map]"
proof -
  have h: "Map \<noteq> Chat" "Some Map \<in> set (panelOrder initialState)"
    "Some Chat \<in> set (panelOrder initialState)"
    by (simp_all add: initialState_def)
  show ?thesis
    using h reorder_moves[OF h] by (simp add: initialState_def Let_def)
qed

lemma indexOf_bounds: "- 1 \<le> indexOf xs x \<and> indexOf xs x < int (length xs)"
  by (induction xs) (auto simp: Let_def)

text \<open>
  With a start index that \<open>indexOf\<close> can return and a non-empty array, \<open>arrayMove\<close>
  only rearranges: it takes one element out and puts the same element back in.
\<close>

lemma arrayMove_unfold:
  "arrayMove xs f t =
     snd (splice (snd (splice xs f 1 []))
            (if t < 0 then int (length xs) + t else t) 0
            [case fst (splice xs f 1 []) of [] \<Rightarrow> None | x # _ \<Rightarrow> x])"
  by (simp add: arrayMove_def Let_def split: prod.splits)

lemma mset_arrayMove:
  assumes "xs \<noteq> []" "- 1 \<le> f" "f < int (length xs)"
  shows "mset (arrayMove xs f t) = mset xs"
proof (cases "f = - 1")
  case True
  have "add_mset (last xs) (mset (butlast xs)) = mset (butlast xs @ [last xs])"
    by simp
  also have "\<dots> = mset xs"
    using append_butlast_last_id[OF assms(1)] by (simp only:)
  finally show ?thesis
    using assms(1) True
    by (simp add: arrayMove_unfold splice_remove_last mset_splice_insert)
next
  case False
  define i where "i = nat f"
  have i: "f = int i" "i < length xs"
    using False assms(2,3) by (simp_all add: i_def)
  have "add_mset (xs ! i) (mset (take i xs @ drop (Suc i) xs)) = mset (take i xs @ xs ! i # drop (Suc i) xs)"
    by simp
  also have "\<dots> = mset xs"
    using i(2) by (simp only: id_take_nth_drop[symmetric])
  finally show ?thesis
    using i by (simp add: arrayMove_unfold splice_remove_one mset_splice_insert del: mset_append)
qed

lemma mset_handleDragEnd:
  "panelOrder s \<noteq> [] \<Longrightarrow> mset (panelOrder (handleDragEnd event s)) = mset (panelOrder s)"
  by (simp add: handleDragEnd_def Let_def mset_arrayMove indexOf_bounds split: option.splits)

text \<open>
  C2. A reorder applied to an order that is a permutation of the registry's
  identities \<open>{map, music, chat}\<close> gives again such a permutation: no duplicates, the
  same members, the same length.
\<close>

theorem reorder_keeps_permutation:
  assumes "isRegistryPermutation (panelOrder s)"
  shows "isRegistryPermutation (panelOrder (reorder fromId toId s))
         \<and> length (panelOrder (reorder fromId toId s)) = length allPanels"
proof -
  have "set (panelOrder s) \<noteq> {}"
    using assms by (simp add: isRegistryPermutation_def allPanels_def)
  then have "panelOrder s \<noteq> []" by auto
  then have m: "mset (panelOrder (reorder fromId toId s)) = mset (panelOrder s)"
    unfolding reorder_def by (rule mset_handleDragEnd)
  have d: "distinct (panelOrder (reorder fromId toId s))"
    using assms mset_eq_imp_distinct_iff[OF m] by (simp add: isRegistryPermutation_def)
  have s: "set (panelOrder (reorder fromId toId s)) = set (panelOrder s)"
    using m by (rule mset_eq_setD)
  have "length (panelOrder s) = length allPanels"
  proof -
    have "distinct (panelOrder s)"
      using assms by (simp add: isRegistryPermutation_def)
    then have "card (set (panelOrder s)) = length (panelOrder s)"
      by (rule distinct_card)
    moreover have "card (set (panelOrder s)) = length allPanels"
      using assms by (simp add: isRegistryPermutation_def allPanels_def)
    ultimately show ?thesis by simp
  qed
  moreover have "length (panelOrder (reorder fromId toId s)) = length (panelOrder s)"
    using m by (rule mset_eq_length)
  ultimately show ?thesis
    using assms d s by (simp add: isRegistryPermutation_def)
qed

theorem reorder_keeps_permutation_witness:
  "isRegistryPermutation (panelOrder initialState)
   \<and> isRegistryPermutation (panelOrder (reorder Music Map initialState))
   \<and> panelOrder (reorder Music Map initialState) = [Some Music, Some Map, Some Chat]"
proof -
  have h: "isRegistryPermutation (panelOrder initialState)"
    by (simp add: isRegistryPermutation_def initialState_def allPanels_def) 
  have "panelOrder (reorder Music Map initialState) = [Some Music, Some Map, Some Chat]"
    by code_simp
  with h reorder_keeps_permutation[OF h, of Music Map] show ?thesis by simp
qed

subsection \<open>The states the page reaches\<close>

lemma handleDragEnd_frame:
  "activeId (handleDragEnd event s) = None \<and> openPanels (handleDragEnd event s) = openPanels s"
  by (simp add: handleDragEnd_def Let_def split: option.splits)

text \<open>
  \<open>handleDragEnd\<close> has no check of the two indices and no error path. On the empty
  array the removal yields \<open>undefined\<close>, which is then inserted.
\<close>

lemma reorder_empty:
  "fromId \<noteq> toId \<Longrightarrow> panelOrder s = [] \<Longrightarrow> panelOrder (reorder fromId toId s) = [None]"
  by (simp add: panelOrder_reorder arrayMove_unfold splice_def spliceStart_def)

text \<open>
  The order starts as a permutation of the registry's identities and every handler
  keeps it one, so after any sequence of events every identity occurs in the order:
  the two indices that \<open>handleDragEnd\<close> hands to \<open>arrayMove\<close> are never \<open>-1\<close> there.
\<close>

lemma initial_permutation: "isRegistryPermutation (panelOrder initialState)"
  by (simp add: isRegistryPermutation_def initialState_def allPanels_def)

lemma dispatch_keeps_permutation:
  assumes "isRegistryPermutation (panelOrder s)"
  shows "isRegistryPermutation (panelOrder (dispatch e s))"
proof (cases e)
  case (DragEnd event)
  have "set (panelOrder s) \<noteq> {}"
    using assms by (simp add: isRegistryPermutation_def allPanels_def)
  then have "panelOrder s \<noteq> []" by auto
  then have m: "mset (panelOrder (handleDragEnd event s)) = mset (panelOrder s)"
    by (rule mset_handleDragEnd)
  have "distinct (panelOrder (handleDragEnd event s))"
    using assms mset_eq_imp_distinct_iff[OF m] by (simp add: isRegistryPermutation_def)
  moreover have "set (panelOrder (handleDragEnd event s)) = set (panelOrder s)"
    using m by (rule mset_eq_setD)
  ultimately show ?thesis
    using assms DragEnd by (simp add: isRegistryPermutation_def)
qed (use assms in \<open>simp_all add: handleDragStart_def handleDragCancel_def
      togglePanel_def closePanel_def\<close>)

lemma run_keeps_permutation:
  "isRegistryPermutation (panelOrder s) \<Longrightarrow> isRegistryPermutation (panelOrder (run es s))"
  by (induction es arbitrary: s) (simp_all add: dispatch_keeps_permutation)

lemma permutation_has_every_identity:
  "isRegistryPermutation order \<Longrightarrow> Some p \<in> set order"
  by (cases p) (simp_all add: isRegistryPermutation_def allPanels_def)

lemma reached_order_has_every_identity:
  "Some p \<in> set (panelOrder (run es initialState))"
  by (rule permutation_has_every_identity)
    (rule run_keeps_permutation[OF initial_permutation])

subsection \<open>The visible panels\<close>

lemma find_allPanels:
  "\<exists>q \<in> set allPanels. find (\<lambda>q. Some (id q) = Some p) allPanels = Some q \<and> id q = p"
  by (cases p) (simp_all add: allPanels_def)

lemma has_iff: "has ps x \<longleftrightarrow> x \<in> Some ` ps"
  by (cases x) (auto simp: has_def)

lemma visible_slot:
  assumes "has ps x"
  shows "\<exists>q \<in> set allPanels. find (\<lambda>q. Some (id q) = x) allPanels = Some q
           \<and> Some (id q) = x \<and> id q \<in> ps"
proof -
  obtain p where p: "x = Some p" "p \<in> ps"
    using assms by (cases x) (auto simp: has_def)
  obtain q where "q \<in> set allPanels" "find (\<lambda>q. Some (id q) = Some p) allPanels = Some q" "id q = p"
    using find_allPanels[of p] by blast
  with p show ?thesis by auto
qed

text \<open>
  C3. The identities of \<open>visiblePanels\<close> are the slots of the order that are members
  of the visibility set, in the order's sequence; every entry is a definition of the
  registry whose identity is open, so no entry has an identity outside the visibility
  set; with an empty visibility set the result is empty.
\<close>

theorem visiblePanels_restricts_order:
  "map (map_option id) (visiblePanels s) = filter (\<lambda>x. x \<in> Some ` openPanels s) (panelOrder s)
   \<and> set (visiblePanels s) \<subseteq> Some ` set allPanels
   \<and> (\<forall>v \<in> set (visiblePanels s). \<exists>p. v = Some p \<and> id p \<in> openPanels s)
   \<and> visiblePanels (s\<lparr>openPanels := {}\<rparr>) = []"
proof -
  let ?vis = "filter (\<lambda>x. has (openPanels s) x) (panelOrder s)"
  let ?def = "\<lambda>x. find (\<lambda>p. Some (id p) = x) allPanels"
  have "map (map_option id) (visiblePanels s) = map (\<lambda>x. map_option id (?def x)) ?vis"
    by (simp add: visiblePanels_def)
  also have "\<dots> = map (\<lambda>x. x) ?vis"
  proof (rule map_cong[OF refl])
    fix x assume "x \<in> set ?vis"
    then have "has (openPanels s) x" by simp
    from visible_slot[OF this] show "map_option id (?def x) = x" by auto
  qed
  finally have a: "map (map_option id) (visiblePanels s)
      = filter (\<lambda>x. x \<in> Some ` openPanels s) (panelOrder s)"
    by (simp add: has_iff)
  have b: "\<exists>q \<in> set allPanels. v = Some q \<and> id q \<in> openPanels s"
    if "v \<in> set (visiblePanels s)" for v
  proof -
    from that obtain x where "has (openPanels s) x" "v = ?def x"
      by (auto simp: visiblePanels_def)
    with visible_slot[of "openPanels s" x] show ?thesis by auto
  qed
  have c: "visiblePanels (s\<lparr>openPanels := {}\<rparr>) = []"
    by (simp add: visiblePanels_def has_iff)
  from b have "set (visiblePanels s) \<subseteq> Some ` set allPanels" by blast
  moreover from b have "\<forall>v \<in> set (visiblePanels s). \<exists>p. v = Some p \<and> id p \<in> openPanels s"
    by blast
  ultimately show ?thesis using a c by simp
qed

theorem visiblePanels_restricts_order_witness:
  "visiblePanels (closePanel Music initialState)
     = [Some \<lparr>id = Map, title = ''Map'', icon = MapIcon\<rparr>,
        Some \<lparr>id = Chat, title = ''Chat'', icon = ChatBubbleBottomCenterIcon\<rparr>]
   \<and> map (map_option id) (visiblePanels (closePanel Music initialState)) = [Some Map, Some Chat]
   \<and> openPanels (closePanel Music initialState) = {Map, Chat}
   \<and> visiblePanels (closePanel Music initialState\<lparr>openPanels := {}\<rparr>) = []"
proof -
  have "visiblePanels (closePanel Music initialState)
     = [Some \<lparr>id = Map, title = ''Map'', icon = MapIcon\<rparr>,
        Some \<lparr>id = Chat, title = ''Chat'', icon = ChatBubbleBottomCenterIcon\<rparr>]"
    by (simp add: visiblePanels_def closePanel_def initialState_def has_def allPanels_def)
  moreover have "openPanels (closePanel Music initialState) = {Map, Chat}"
    by (auto simp: closePanel_def initialState_def)
  ultimately show ?thesis
    using visiblePanels_restricts_order[of "closePanel Music initialState"] by simp
qed

subsection \<open>Toggling and closing\<close>

lemma calls_append: "calls (cs @ ds) s = calls ds (calls cs s)"
  by (induction cs arbitrary: s) simp_all

lemma openPanels_togglePanel:
  "q \<in> openPanels (togglePanel p s) \<longleftrightarrow> (if q = p then q \<notin> openPanels s else q \<in> openPanels s)"
  by (auto simp: togglePanel_def Let_def)

lemma openPanels_closePanel:
  "q \<in> openPanels (closePanel p s) \<longleftrightarrow> q \<noteq> p \<and> q \<in> openPanels s"
  by (auto simp: closePanel_def)

text \<open>
  C4. After any sequence of toggle and close calls, panel \<open>p\<close> is open exactly when
  the number of its toggles since its last close (since the start when it was never
  closed) is odd if it was closed at that point, and even if it was open.
\<close>

theorem toggle_parity:
  "p \<in> openPanels (calls cs s) \<longleftrightarrow>
     (if openAtMark p cs s then even (togglesSinceLastClose p cs)
      else odd (togglesSinceLastClose p cs))"
proof (induction cs rule: rev_induct)
  case Nil
  show ?case
    by (simp add: openAtMark_def togglesSinceLastClose_def sinceLastClose_def)
next
  case (snoc c cs)
  show ?case
  proof (cases c)
    case (Toggle q)
    then show ?thesis
      using snoc
      by (auto simp: calls_append openPanels_togglePanel openAtMark_def
          togglesSinceLastClose_def sinceLastClose_def)
  next
    case (Close q)
    then show ?thesis
      using snoc
      by (auto simp: calls_append openPanels_closePanel openAtMark_def
          togglesSinceLastClose_def sinceLastClose_def)
  qed
qed

subsection \<open>Independence of order and visibility\<close>

text \<open>
  C6. \<open>togglePanel\<close> and \<open>closePanel\<close> leave the order as it is (and the drag too);
  a reorder, and any drag end, leaves the visibility set as it is.
\<close>

theorem order_visibility_independent:
  "panelOrder (togglePanel p s) = panelOrder s
   \<and> panelOrder (closePanel p s) = panelOrder s
   \<and> activeId (togglePanel p s) = activeId s
   \<and> activeId (closePanel p s) = activeId s
   \<and> openPanels (reorder fromId toId s) = openPanels s
   \<and> openPanels (handleDragEnd event s) = openPanels s"
  by (simp add: togglePanel_def closePanel_def reorder_def handleDragEnd_frame)

subsection \<open>The drag life cycle\<close>

text \<open>
  C7. A drag start followed by a drag cancel gives the state before the drag start
  with \<open>activeId\<close> cleared: the order and the visibility set are as before, and no
  reorder has taken place.
\<close>

theorem drag_start_cancel:
  "handleDragCancel (handleDragStart event s) = s\<lparr>activeId := None\<rparr>
   \<and> panelOrder (handleDragCancel (handleDragStart event s)) = panelOrder s
   \<and> openPanels (handleDragCancel (handleDragStart event s)) = openPanels s
   \<and> activeId (handleDragCancel (handleDragStart event s)) = None"
  by (simp add: handleDragCancel_def handleDragStart_def)

text \<open>
  C8. \<open>reorder a a\<close> leaves the order unchanged; a drag end without a target, or onto
  the dragged panel itself, changes nothing but \<open>activeId\<close>; every drag end clears
  \<open>activeId\<close>.
\<close>

theorem reorder_same_identity:
  "panelOrder (reorder a a s) = panelOrder s
   \<and> handleDragEnd \<lparr>active = a, over = None\<rparr> s = s\<lparr>activeId := None\<rparr>
   \<and> handleDragEnd \<lparr>active = a, over = Some a\<rparr> s = s\<lparr>activeId := None\<rparr>
   \<and> activeId (handleDragEnd event s) = None"
  by (simp add: reorder_def handleDragEnd_def Let_def split: option.splits)

subsection \<open>Closing\<close>

text \<open>
  C9. \<open>closePanel p\<close> removes \<open>p\<close> from the visibility set and nothing else; a second
  \<open>closePanel p\<close> gives the same state as the first; closing a panel that is already
  closed returns the state unchanged (there is no error result).
\<close>

theorem closePanel_idempotent:
  "openPanels (closePanel p s) = openPanels s - {p}
   \<and> p \<notin> openPanels (closePanel p s)
   \<and> closePanel p (closePanel p s) = closePanel p s
   \<and> (p \<notin> openPanels s \<longrightarrow> closePanel p s = s)"
  by (simp add: closePanel_def)

theorem closePanel_idempotent_witness:
  "Music \<notin> openPanels (closePanel Music initialState)
   \<and> closePanel Music (closePanel Music initialState) = closePanel Music initialState
   \<and> openPanels (closePanel Music initialState) = {Map, Chat}"
proof -
  have h: "Music \<notin> openPanels (closePanel Music initialState)"
    by (simp add: closePanel_def)
  have "openPanels (closePanel Music initialState) = {Map, Chat}"
    by (auto simp: closePanel_def initialState_def)
  with h closePanel_idempotent[of Music "closePanel Music initialState"] show ?thesis
    by simp
qed

subsection \<open>The initial state\<close>

text \<open>
  C10. At startup the order is \<open>[map, music, chat]\<close>, every panel is open and no drag
  is active; so the panel strip shows all three registry panels, in registry order,
  and not the placeholder.
\<close>

theorem initial_state:
  "panelOrder initialState = [Some Map, Some Music, Some Chat]
   \<and> openPanels initialState = {Map, Music, Chat}
   \<and> openPanels initialState = UNIV
   \<and> activeId initialState = None
   \<and> visiblePanels initialState = map Some allPanels
   \<and> visiblePanels initialState \<noteq> []
   \<and> activePanel initialState = None"
proof -
  have "UNIV = {Map, Music, Chat}"
    using PanelType.exhaust by auto
  then show ?thesis
    by (simp add: initialState_def visiblePanels_def activePanel_def has_def allPanels_def)
qed

end
